theory Spec2Isabelle
  imports Main "HOL-Library.AList"
begin

section \<open>Strings, byte strings and dictionaries\<close>

text \<open>
  Python text and byte strings are both modelled as \<open>string\<close>: a list of 8-bit characters.
  Header names and values reach the handler decoded as latin-1, one character per byte, so
  this is exactly their range: a character is a code point below 256. Text that is not
  confined to that range (the Chinese messages of the source, the values of environment
  variables) is held as its UTF-8 bytes, on which \<open>encode('utf-8')\<close> is the identity.
\<close>

type_synonym bytes = string

text \<open>
  A Python \<open>dict\<close> with string keys: an association list without repeated keys, in
  insertion order. \<open>d[k] = v\<close> is \<open>AList.update k v d\<close>: it overwrites in place or
  appends. The keys are compared as they are, case-sensitively.
\<close>

type_synonym dict = "(string \<times> string) list"

text \<open>\<open>str.lower()\<close>. Only \<open>A\<close>..\<open>Z\<close> have a lower-case form that is an ASCII letter,
  so every comparison of the source with an ASCII literal is decided by this function.
  Adding 32 to a code in 65..90 sets bit 5 of the character.\<close>

definition lower_char :: "char \<Rightarrow> char" where
  "lower_char c =
     (if 65 \<le> (of_char c :: nat) \<and> (of_char c :: nat) \<le> 90
      then (case c of Char b0 b1 b2 b3 b4 b5 b6 b7 \<Rightarrow> Char b0 b1 b2 b3 b4 True b6 b7)
      else c)"

definition lower :: "string \<Rightarrow> string" where
  "lower s = map lower_char s"

text \<open>
  \<open>str.strip()\<close> with no argument removes leading and trailing white space: the code points
  for which \<open>str.isspace()\<close> holds. They are 9 to 13, 28 to 32, U+0085, U+00A0, U+1680,
  U+2000 to U+200A, U+2028, U+2029, U+202F, U+205F and U+3000.

  On header text, one character per code point, only those below 256 can occur.
\<close>

definition is_space :: "char \<Rightarrow> bool" where
  "is_space c = ((of_char c :: nat) \<in> {9, 10, 11, 12, 13, 28, 29, 30, 31, 32, 133, 160})"

definition strip :: "string \<Rightarrow> string" where
  "strip s = rev (dropWhile is_space (rev (dropWhile is_space s)))"

text \<open>
  On text held as UTF-8 a white space code point is one, two or three bytes: an ASCII one is
  itself; U+0085 and U+00A0 are \<open>C2 85\<close> and \<open>C2 A0\<close>; U+1680 is \<open>E1 9A 80\<close>; U+2000 to
  U+200A, U+2028, U+2029 and U+202F are \<open>E2 80\<close> followed by \<open>80\<close> to \<open>8A\<close>, \<open>A8\<close>,
  \<open>A9\<close> and \<open>AF\<close>; U+205F is \<open>E2 81 9F\<close>; U+3000 is \<open>E3 80 80\<close>.
\<close>

definition space1 :: "char \<Rightarrow> bool" where
  "space1 a = ((of_char a :: nat) \<in> {9, 10, 11, 12, 13, 28, 29, 30, 31, 32})"

definition space2 :: "char \<Rightarrow> char \<Rightarrow> bool" where
  "space2 a b = ((of_char a :: nat) = 0xC2 \<and> (of_char b :: nat) \<in> {0x85, 0xA0})"

definition space3 :: "char \<Rightarrow> char \<Rightarrow> char \<Rightarrow> bool" where
  "space3 a b c =
     ((of_char a :: nat) = 0xE1 \<and> (of_char b :: nat) = 0x9A \<and> (of_char c :: nat) = 0x80
      \<or> (of_char a :: nat) = 0xE2 \<and> (of_char b :: nat) = 0x80
          \<and> (of_char c :: nat) \<in> {0x80, 0x81, 0x82, 0x83, 0x84, 0x85, 0x86, 0x87, 0x88, 0x89,
                                    0x8A, 0xA8, 0xA9, 0xAF}
      \<or> (of_char a :: nat) = 0xE2 \<and> (of_char b :: nat) = 0x81 \<and> (of_char c :: nat) = 0x9F
      \<or> (of_char a :: nat) = 0xE3 \<and> (of_char b :: nat) = 0x80 \<and> (of_char c :: nat) = 0x80)"

text \<open>Removing the leading white space code points of UTF-8 text.\<close>

fun lstrip_utf8 :: "string \<Rightarrow> string" where
  "lstrip_utf8 [] = []"
| "lstrip_utf8 [a] = (if space1 a then [] else [a])"
| "lstrip_utf8 [a, b] =
     (if space1 a then lstrip_utf8 [b] else if space2 a b then [] else [a, b])"
| "lstrip_utf8 (a # b # c # s) =
     (if space1 a then lstrip_utf8 (b # c # s)
      else if space2 a b then lstrip_utf8 (c # s)
      else if space3 a b c then lstrip_utf8 s
      else a # b # c # s)"

text \<open>Removing the trailing ones, on the reversed text: a code point's last byte comes
  first. In UTF-8 the bytes \<open>C2\<close>, \<open>E1\<close>, \<open>E2\<close> and \<open>E3\<close> only ever start a code point, so a
  match at the end of the text is a whole code point.\<close>

fun rstrip_utf8_rev :: "string \<Rightarrow> string" where
  "rstrip_utf8_rev [] = []"
| "rstrip_utf8_rev [c] = (if space1 c then [] else [c])"
| "rstrip_utf8_rev [c, b] =
     (if space1 c then rstrip_utf8_rev [b] else if space2 b c then [] else [c, b])"
| "rstrip_utf8_rev (c # b # a # s) =
     (if space1 c then rstrip_utf8_rev (b # a # s)
      else if space2 b c then rstrip_utf8_rev (a # s)
      else if space3 a b c then rstrip_utf8_rev s
      else c # b # a # s)"

definition strip_utf8 :: "string \<Rightarrow> string" where
  "strip_utf8 s = rev (rstrip_utf8_rev (rev (lstrip_utf8 s)))"

text \<open>\<open>s.split(sep)\<close> for a one-character separator: always at least one piece.\<close>

fun split :: "char \<Rightarrow> string \<Rightarrow> string list" where
  "split sep [] = [[]]"
| "split sep (c # cs) =
     (if c = sep then [] # split sep cs
      else (case split sep cs of
              [] \<Rightarrow> [[c]]
            | p # ps \<Rightarrow> (c # p) # ps))"

text \<open>\<open>sub in s\<close> on strings: \<open>sub\<close> occurs in \<open>s\<close> as a contiguous run.\<close>

fun starts_with :: "string \<Rightarrow> string \<Rightarrow> bool" where
  "starts_with [] s = True"
| "starts_with (a # sub) [] = False"
| "starts_with (a # sub) (c # s) = (a = c \<and> starts_with sub s)"

fun str_in :: "string \<Rightarrow> string \<Rightarrow> bool" where
  "str_in sub [] = (sub = [])"
| "str_in sub (c # s) = (starts_with sub (c # s) \<or> str_in sub s)"

text \<open>A dict comprehension \<open>{k: v for k, v in items}\<close> and \<open>dict(items)\<close>: the pairs are
  stored from left to right, a later pair overwriting an earlier one with the same key.\<close>

definition dict_of :: "(string \<times> string) list \<Rightarrow> dict" where
  "dict_of items = fold (\<lambda>(k, v) d. AList.update k v d) items []"

section \<open>The framework's request object and the HTTP client\<close>

text \<open>
  The inbound \<open>Request\<close>. \<open>rq_headers\<close> is what \<open>request.headers.items()\<close> yields: the raw
  header list, which may repeat a name. \<open>source\<close> is the body as the receive channel
  delivers it; \<open>body_cache\<close> and \<open>source_reads\<close> are the object's state: the framework's
  \<open>Request.body()\<close> reads the channel when nothing is cached and then keeps the bytes.
\<close>

record request =
  rq_method :: string
  query_params :: string
  rq_headers :: "(string \<times> string) list"
  source :: bytes
  body_cache :: "bytes option"
  source_reads :: nat

text \<open>\<open>request.headers.get(key, default)\<close>: the framework compares the stored names with
  the lower-cased key and returns the first match.\<close>

definition headers_get :: "(string \<times> string) list \<Rightarrow> string \<Rightarrow> string \<Rightarrow> string" where
  "headers_get hs key dflt = (case map_of hs (lower key) of None \<Rightarrow> dflt | Some v \<Rightarrow> v)"

text \<open>\<open>await request.body()\<close>, of the framework: the first call reads the channel to its
  end and caches the result, every later call returns the cached bytes.\<close>

definition request_body :: "request \<Rightarrow> bytes \<times> request" where
  "request_body rq =
     (case body_cache rq of
        Some b \<Rightarrow> (b, rq)
      | None \<Rightarrow> (source rq,
                 rq\<lparr>body_cache := Some (source rq), source_reads := Suc (source_reads rq)\<rparr>))"

text \<open>The upstream's answer as the HTTP client hands it over: \<open>r_headers\<close> is
  \<open>response.headers.items()\<close>, \<open>r_content\<close> the body once read.\<close>

record httpx_response =
  status_code :: int
  r_headers :: "(string \<times> string) list"
  r_content :: bytes

text \<open>An upstream call either raises \<open>httpx.RequestError\<close> (carrying the UTF-8 bytes of
  its message) or returns a response.\<close>

datatype outcome = RequestError bytes | Received httpx_response

text \<open>The content handed to the client: buffered bytes, or the lazy \<open>request.stream()\<close>.\<close>

datatype req_content = Content bytes | RequestStream

record outbound =
  o_method :: string
  o_url :: string
  o_headers :: dict
  o_content :: req_content

text \<open>What the handler returns: \<open>Response(...)\<close> or \<open>StreamingResponse(...)\<close>, with the
  arguments of the constructor call; an argument not passed is \<open>None\<close>.\<close>

datatype reply =
    Response (content: "bytes option") (status: int)
      (reply_headers: "dict option") (media_type: "string option")
  | StreamingResponse (stream: bytes) (status: int)
      (reply_headers: "dict option") (media_type: "string option")

text \<open>A Python exception that no \<open>except\<close> clause of the handler catches.\<close>

datatype exn = UnboundLocalError string

section \<open>Credential extraction and shuffling\<close>

text \<open>\<open>[key.strip() for key in s.split(',') if key.strip()]\<close>, with \<open>strp\<close> the
  \<open>strip\<close> of the text at hand: \<open>strip\<close> for a header value, \<open>strip_utf8\<close> for the value
  of an environment variable. A comma is one byte in both.\<close>

definition parse_keys :: "(string \<Rightarrow> string) \<Rightarrow> string \<Rightarrow> string list" where
  "parse_keys strp s = map strp (filter (\<lambda>key. strp key \<noteq> []) (split (CHR '','') s))"

definition env_get :: "(string \<rightharpoonup> string) \<Rightarrow> string \<Rightarrow> string \<Rightarrow> string" where
  "env_get env key dflt = (case env key of None \<Rightarrow> dflt | Some v \<Rightarrow> v)"

definition api_keys :: "(string \<rightharpoonup> string) \<Rightarrow> request \<Rightarrow> string list" where
  "api_keys env rq =
     (let api_keys = parse_keys strip (headers_get (rq_headers rq) ''x-goog-api-key'' '''')
      in if api_keys = [] then parse_keys strip_utf8 (env_get env ''GOOGLE_API_KEYS'' '''')
         else api_keys)"

text \<open>
  \<open>random.shuffle(x)\<close>: for \<open>i\<close> from \<open>len(x) - 1\<close> down to 1, draw \<open>j\<close> below
  \<open>i + 1\<close> and swap \<open>x[i]\<close> with \<open>x[j]\<close>. The random source is the parameter \<open>rnd\<close>;
  the draw for position \<open>i\<close> is \<open>rnd i\<close> reduced into range.
\<close>

fun shuffle_loop :: "(nat \<Rightarrow> nat) \<Rightarrow> nat \<Rightarrow> 'a list \<Rightarrow> 'a list" where
  "shuffle_loop rnd 0 x = x"
| "shuffle_loop rnd (Suc i) x =
     (let j = rnd (Suc i) mod (Suc i + 1)
      in shuffle_loop rnd i (x[Suc i := x ! j, j := x ! Suc i]))"

definition shuffle :: "(nat \<Rightarrow> nat) \<Rightarrow> 'a list \<Rightarrow> 'a list" where
  "shuffle rnd x = shuffle_loop rnd (length x - 1) x"

section \<open>The handler\<close>

definition GEMINI_API_BASE_URL :: string where
  "GEMINI_API_BASE_URL = ''https://generativelanguage.googleapis.com''"

definition excluded_headers :: "string list" where
  "excluded_headers =
     [''host'', ''x-real-ip'', ''x-forwarded-for'', ''x-forwarded-proto'',
      ''x-vercel-id'', ''x-vercel-deployment-url'', ''x-vercel-proxied-for'',
      ''x-goog-api-key'']"

definition user_agent :: string where
  "user_agent = ''Mozilla/5.0 (Windows NT 10.0; Win64; x64) AppleWebKit/537.36 (KHTML, like Gecko) CherryStudio/1.5.1 Chrome/134.0.6998.205 Electron/35.6.0 Safari/537.36''"

text \<open>Lines 49 and 52: the outbound headers before any credential is set.\<close>

definition prepare_headers :: "(string \<times> string) list \<Rightarrow> dict" where
  "prepare_headers items =
     AList.update ''User-Agent'' user_agent
       (dict_of (filter (\<lambda>(k, v). lower k \<notin> set excluded_headers) items))"

text \<open>The body of the 400 answer (line 32), as UTF-8 bytes.\<close>

definition missing_keys_body :: bytes where
  \<open>missing_keys_body =
     ''{"error": "'' @
     [CHR 0xE6, CHR 0x9C, CHR 0xAA, CHR 0xE6, CHR 0x8F, CHR 0x90, CHR 0xE4, CHR 0xBE, CHR 0x9B] @
     '' API '' @
     [CHR 0xE5, CHR 0xAF, CHR 0x86, CHR 0xE9, CHR 0x92, CHR 0xA5, CHR 0xE3, CHR 0x80, CHR 0x82,
      CHR 0xE8, CHR 0xAF, CHR 0xB7, CHR 0xE5, CHR 0x9C, CHR 0xA8] @
     '' '' @ [CHR 0x27] @ ''x-goog-api-key'' @ [CHR 0x27] @ '' '' @
     [CHR 0xE8, CHR 0xAF, CHR 0xB7, CHR 0xE6, CHR 0xB1, CHR 0x82, CHR 0xE5, CHR 0xA4, CHR 0xB4,
      CHR 0xE6, CHR 0x88, CHR 0x96] @
     '' GOOGLE_API_KEYS '' @
     [CHR 0xE7, CHR 0x8E, CHR 0xAF, CHR 0xE5, CHR 0xA2, CHR 0x83, CHR 0xE5, CHR 0x8F, CHR 0x98,
      CHR 0xE9, CHR 0x87, CHR 0x8F, CHR 0xE4, CHR 0xB8, CHR 0xAD, CHR 0xE8, CHR 0xAE, CHR 0xBE,
      CHR 0xE7, CHR 0xBD, CHR 0xAE, CHR 0xE3, CHR 0x80, CHR 0x82] @
     ''"}''\<close>

text \<open>Lines 107 and 109: the JSON text recorded for a transport error with message \<open>e\<close>.\<close>

definition error_message :: "bytes \<Rightarrow> bytes" where
  "error_message e =
     [CHR 0xE6, CHR 0x97, CHR 0xA0, CHR 0xE6, CHR 0xB3, CHR 0x95, CHR 0xE8, CHR 0xBF, CHR 0x9E,
      CHR 0xE6, CHR 0x8E, CHR 0xA5, CHR 0xE5, CHR 0x88, CHR 0xB0, CHR 0xE7, CHR 0x9B, CHR 0xAE,
      CHR 0xE6, CHR 0xA0, CHR 0x87, CHR 0xE6, CHR 0x9C, CHR 0x8D, CHR 0xE5, CHR 0x8A, CHR 0xA1,
      CHR 0xE5, CHR 0x99, CHR 0xA8] @ '': '' @ e"

definition fetch_error_body :: "bytes \<Rightarrow> bytes" where
  \<open>fetch_error_body e =
     ''{"error": "Proxy fetch error", "details": "'' @ error_message e @ ''"}''\<close>

text \<open>
  The local variables of the handler that the loop reads and writes, the request object,
  and the log of the calls issued on the HTTP client, oldest first. \<open>response\<close> is
  \<open>None\<close> while the name is unbound.
\<close>

record state =
  last_error :: "bytes option"
  last_status :: int
  headers :: dict
  response :: "httpx_response option"
  req :: request
  sent :: "outbound list"

text \<open>The upstream: the outcome of the \<open>n\<close>-th call issued on the client, counted
  from 0. The calls themselves are in \<open>sent\<close>.\<close>

type_synonym upstream = "nat \<Rightarrow> outcome"

datatype step = Continue | Return reply | Raise exn

definition is_streaming :: "string \<Rightarrow> bool" where
  "is_streaming path = str_in ''stream'' (lower path)"

text \<open>The \<open>except httpx.RequestError\<close> clause, lines 106 to 111.\<close>

definition on_request_error :: "bytes \<Rightarrow> state \<Rightarrow> step \<times> state" where
  "on_request_error e s =
     (Continue, s\<lparr>last_error := Some (fetch_error_body e), last_status := 502\<rparr>)"

text \<open>Lines 95 to 104, which both branches fall through to. They read the local
  \<open>response\<close>; reading an unbound local raises \<open>UnboundLocalError\<close>.\<close>

definition classify :: "state \<Rightarrow> step \<times> state" where
  "classify s =
     (case response s of
        None \<Rightarrow> (Raise (UnboundLocalError ''response''), s)
      | Some r \<Rightarrow>
          if 400 \<le> status_code r \<and> status_code r < 500
          then (Continue, s\<lparr>last_error := Some (r_content r), last_status := status_code r\<rparr>)
          else (Return (Response (Some (r_content r)) (status_code r)
                          (Some (dict_of (r_headers r))) None), s))"

text \<open>One iteration of the loop, lines 60 to 111.\<close>

definition attempt :: "upstream \<Rightarrow> string \<Rightarrow> string \<Rightarrow> string \<Rightarrow> state \<Rightarrow> step \<times> state" where
  "attempt up path target_url key s0 =
     (let s1 = s0\<lparr>headers := AList.update ''x-goog-api-key'' key (headers s0)\<rparr>
      in if is_streaming path then
           (let call = \<lparr>o_method = rq_method (req s1), o_url = target_url,
                        o_headers = headers s1, o_content = RequestStream\<rparr>;
                s2 = s1\<lparr>sent := sent s1 @ [call]\<rparr>
            in case up (length (sent s1)) of
                 RequestError e \<Rightarrow> on_request_error e s2
               | Received r \<Rightarrow>
                   if status_code r = 200
                   then (Return (StreamingResponse (r_content r) (status_code r)
                                   (Some (dict_of (r_headers r)))
                                   (map_of (r_headers r) ''content-type'')), s2)
                   else classify s2)
         else
           (let (body, rq) = request_body (req s1);
                call = \<lparr>o_method = rq_method rq, o_url = target_url,
                        o_headers = headers s1, o_content = Content body\<rparr>;
                s2 = s1\<lparr>req := rq, sent := sent s1 @ [call]\<rparr>
            in case up (length (sent s1)) of
                 RequestError e \<Rightarrow> on_request_error e s2
               | Received r \<Rightarrow>
                   (let s3 = s2\<lparr>response := Some r\<rparr>
                    in if status_code r < 400
                       then (Return (Response (Some (r_content r)) (status_code r)
                                       (Some (dict_of (filter
                                          (\<lambda>(k, v). lower k \<notin> set [''content-encoding'', ''transfer-encoding''])
                                          (r_headers r))))
                                       (map_of (r_headers r) ''content-type'')), s3)
                       else classify s3)))"

text \<open>The \<open>for\<close> loop of line 59 and the return of line 115.\<close>

fun loop :: "upstream \<Rightarrow> string \<Rightarrow> string \<Rightarrow> string list \<Rightarrow> state \<Rightarrow> (exn + reply) \<times> state" where
  "loop up path target_url [] s =
     (Inr (Response (last_error s) (last_status s) None (Some ''application/json'')), s)"
| "loop up path target_url (key # keys) s =
     (case attempt up path target_url key s of
        (Continue, s') \<Rightarrow> loop up path target_url keys s'
      | (Return r, s') \<Rightarrow> (Inr r, s')
      | (Raise e, s') \<Rightarrow> (Inl e, s'))"

text \<open>The state in which the loop starts, lines 49 to 56.\<close>

definition init_state :: "request \<Rightarrow> state" where
  "init_state request =
     \<lparr>last_error = None, last_status = 500,
      headers = prepare_headers (rq_headers request),
      response = None, req = request, sent = []\<rparr>"

text \<open>Line 39.\<close>

definition target_url :: "request \<Rightarrow> string \<Rightarrow> string" where
  "target_url request path = GEMINI_API_BASE_URL @ ''/'' @ path @ ''?'' @ query_params request"

text \<open>The handler: what it returns or raises, the calls it issued on the client, and the
  request object as it leaves it.\<close>

record run =
  result :: "exn + reply"
  calls :: "outbound list"
  request_after :: request

definition proxy_to_gemini ::
  "(nat \<Rightarrow> nat) \<Rightarrow> (string \<rightharpoonup> string) \<Rightarrow> upstream \<Rightarrow> request \<Rightarrow> string \<Rightarrow> run" where
  "proxy_to_gemini rnd env up request path =
     (let api_keys = api_keys env request
      in if api_keys = [] then
           \<lparr>result = Inr (Response (Some missing_keys_body) 400 None (Some ''application/json'')),
            calls = [], request_after = request\<rparr>
         else
           (let api_keys = shuffle rnd api_keys;
                target_url = target_url request path;
                (res, s) = loop up path target_url api_keys (init_state request)
            in \<lparr>result = res, calls = sent s, request_after = req s\<rparr>))"

section \<open>The shape of the error body\<close>

text \<open>
  A JSON object with the single member \<open>"error"\<close> whose value is a string written without
  escapes: the text starts with \<open>{"error": "\<close>, ends with \<open>"}\<close>, and holds no quote,
  backslash or control character in between.
\<close>

definition json_string_char :: "char \<Rightarrow> bool" where
  "json_string_char c = (c \<noteq> CHR 0x22 \<and> c \<noteq> CHR 0x5C \<and> 32 \<le> (of_char c :: nat))"

definition is_json_error_body :: "bytes \<Rightarrow> bool" where
  \<open>is_json_error_body b =
     (13 \<le> length b \<and> take 11 b = ''{"error": "'' \<and> drop (length b - 2) b = ''"}''
      \<and> list_all json_string_char (take (length b - 13) (drop 11 b)))\<close>

section \<open>Outcomes of one attempt\<close>

text \<open>
  The outcomes after which the loop goes on to the next credential, and what it then holds
  in \<open>last_error\<close> and \<open>last_status\<close>. Lemmas \<open>attempt_retried\<close> and
  \<open>attempt_Continue_retried\<close> show that these are the outcomes on which \<open>attempt\<close>
  continues.
\<close>

definition retried :: "string \<Rightarrow> outcome \<Rightarrow> bool" where
  "retried path out =
     (case out of
        RequestError e \<Rightarrow> True
      | Received r \<Rightarrow> \<not> is_streaming path \<and> 400 \<le> status_code r \<and> status_code r < 500)"

definition recorded :: "outcome \<Rightarrow> bytes option \<times> int" where
  "recorded out =
     (case out of
        RequestError e \<Rightarrow> (Some (fetch_error_body e), 502)
      | Received r \<Rightarrow> (Some (r_content r), status_code r))"

section \<open>Concrete requests and upstreams\<close>

definition stream_path :: string where
  "stream_path = ''v1beta/models/m:streamGenerateContent''"

definition plain_path :: string where
  "plain_path = ''v1beta/models/m:generateContent''"

definition rq_two_keys :: request where
  "rq_two_keys =
     \<lparr>rq_method = ''POST'', query_params = ''alt=json'',
      rq_headers = [(''host'', ''proxy.example''), (''x-goog-api-key'', ''k1, k2'')],
      source = ''{}'', body_cache = None, source_reads = 0\<rparr>"

definition rq_no_key_header :: request where
  "rq_no_key_header =
     \<lparr>rq_method = ''POST'', query_params = '''',
      rq_headers = [(''host'', ''proxy.example''), (''user-agent'', ''curl/8.0'')],
      source = ''{}'', body_cache = None, source_reads = 0\<rparr>"

definition env_one_key :: "string \<rightharpoonup> string" where
  "env_one_key = [''GOOGLE_API_KEYS'' \<mapsto> '' ek1 ,'']"

text \<open>An environment whose variable holds only commas and white space: a space, U+3000,
  U+00A0 and a tab.\<close>

definition env_blank :: "string \<rightharpoonup> string" where
  "env_blank =
     [''GOOGLE_API_KEYS'' \<mapsto>
        '' ,'' @ [CHR 0xE3, CHR 0x80, CHR 0x80] @ '','' @ [CHR 0xC2, CHR 0xA0, CHR 0x09]]"

definition gzip_response :: "int \<Rightarrow> httpx_response" where
  "gzip_response st =
     \<lparr>status_code = st,
      r_headers = [(''content-type'', ''application/json''), (''content-encoding'', ''gzip'')],
      r_content = ''{}''\<rparr>"

definition up_status :: "int \<Rightarrow> upstream" where
  "up_status st n = Received (gzip_response st)"

definition up_error_then :: "int \<Rightarrow> upstream" where
  "up_error_then st n = (if n = 0 then RequestError ''timed out'' else Received (gzip_response st))"

definition up_4xx :: upstream where
  "up_4xx n = Received \<lparr>status_code = 401 + int n, r_headers = [], r_content = replicate n CHR ''x''\<rparr>"

definition up_all_errors :: upstream where
  "up_all_errors n = RequestError ''timed out''"

section \<open>Properties of the shuffle, of one attempt and of the loop\<close>

lemma shuffle_loop_length: "length (shuffle_loop rnd i x) = length x"
  by (induction i arbitrary: x) (simp_all add: Let_def)

lemma shuffle_length: "length (shuffle rnd x) = length x"
  by (simp add: shuffle_def shuffle_loop_length)

lemma shuffle_Nil_iff: "shuffle rnd x = [] \<longleftrightarrow> x = []"
  using shuffle_length [of rnd x] by (metis length_0_conv)

lemma attempt_sent_length: "length (sent (snd (attempt up path url key s))) = Suc (length (sent s))"
  by (auto simp: attempt_def Let_def on_request_error_def classify_def
      split: outcome.splits option.splits prod.splits)

lemma attempt_retried:
  assumes "retried path (up (length (sent s)))"
  shows "fst (attempt up path url key s) = Continue"
    and "last_error (snd (attempt up path url key s)) = fst (recorded (up (length (sent s))))"
    and "last_status (snd (attempt up path url key s)) = snd (recorded (up (length (sent s))))"
  using assms
  by (auto simp: attempt_def Let_def on_request_error_def classify_def retried_def recorded_def
      split: outcome.splits option.splits prod.splits)

lemma attempt_streaming_response:
  "is_streaming path \<Longrightarrow> response (snd (attempt up path url key s)) = response s"
  by (auto simp: attempt_def Let_def on_request_error_def classify_def
      split: outcome.splits option.splits prod.splits)

lemma attempt_Continue_retried:
  assumes "fst (attempt up path url key s) = Continue"
    and "is_streaming path \<longrightarrow> response s = None"
  shows "retried path (up (length (sent s)))"
  using assms
  by (auto simp: attempt_def Let_def on_request_error_def classify_def retried_def
      split: outcome.splits option.splits prod.splits if_splits)


lemma loop_Cons_Continue:
  "fst (attempt up path url key s) = Continue \<Longrightarrow>
   loop up path url (key # keys) s = loop up path url keys (snd (attempt up path url key s))"
  by (cases "attempt up path url key s") simp

lemma loop_retried_prefix:
  assumes "\<forall>i<length ks. retried path (up (length (sent s) + i))"
  shows "\<exists>s'. loop up path url (ks @ rest) s = loop up path url rest s'
      \<and> length (sent s') = length (sent s) + length ks
      \<and> (ks = [] \<longrightarrow> s' = s)
      \<and> (ks \<noteq> [] \<longrightarrow>
           (last_error s', last_status s') = recorded (up (length (sent s) + length ks - 1)))
      \<and> (is_streaming path \<longrightarrow> response s' = response s)"
  using assms
proof (induction ks arbitrary: s)
  case Nil
  then show ?case by simp
next
  case (Cons k ks)
  define s1 where "s1 = snd (attempt up path url k s)"
  from Cons.prems have r0: "retried path (up (length (sent s)))" by force
  have len1: "length (sent s1) = Suc (length (sent s))"
    by (simp add: s1_def attempt_sent_length)
  have rec1: "(last_error s1, last_status s1) = recorded (up (length (sent s)))"
    using r0 attempt_retried(2,3) [of path up s url k] by (simp add: s1_def)
  have resp1: "is_streaming path \<longrightarrow> response s1 = response s"
    by (simp add: s1_def attempt_streaming_response)
  have step: "loop up path url ((k # ks) @ rest) s = loop up path url (ks @ rest) s1"
    using r0 attempt_retried(1) [of path up s url k]
      loop_Cons_Continue [of up path url k s "ks @ rest"] by (simp add: s1_def)
  have "\<forall>i<length ks. retried path (up (length (sent s1) + i))"
  proof (intro allI impI)
    fix i assume "i < length ks"
    then have "Suc i < length (k # ks)" by simp
    with Cons.prems have "retried path (up (length (sent s) + Suc i))" by blast
    then show "retried path (up (length (sent s1) + i))" by (simp add: len1)
  qed
  from Cons.IH [OF this] obtain s' where
    a: "loop up path url (ks @ rest) s1 = loop up path url rest s'" and
    b: "length (sent s') = length (sent s1) + length ks" and
    c: "ks = [] \<longrightarrow> s' = s1" and
    d: "ks \<noteq> [] \<longrightarrow>
          (last_error s', last_status s') = recorded (up (length (sent s1) + length ks - 1))" and
    e: "is_streaming path \<longrightarrow> response s' = response s1"
    by blast
  have "(last_error s', last_status s') = recorded (up (length (sent s) + length (k # ks) - 1))"
  proof (cases "ks = []")
    case True
    with c rec1 show ?thesis by simp
  next
    case False
    with d show ?thesis by (simp add: len1)
  qed
  with a b e step resp1 len1 show ?case
    by (intro exI [of _ s']) simp
qed

lemma attempt_headers:
  "headers (snd (attempt up path url key s)) = AList.update ''x-goog-api-key'' key (headers s)"
  by (auto simp: attempt_def Let_def on_request_error_def classify_def
      split: outcome.splits option.splits prod.splits)

lemma attempt_sent:
  "\<exists>c. sent (snd (attempt up path url key s)) = sent s @ [c]
     \<and> o_headers c = AList.update ''x-goog-api-key'' key (headers s)
     \<and> o_url c = url \<and> o_method c = rq_method (req s)
     \<and> o_content c = (if is_streaming path then RequestStream
                       else Content (fst (request_body (req s))))"
  by (auto simp: attempt_def Let_def on_request_error_def classify_def request_body_def
      split: outcome.splits option.splits prod.splits)

lemma attempt_req:
  "req (snd (attempt up path url key s)) =
     (if is_streaming path then req s else snd (request_body (req s)))"
  by (auto simp: attempt_def Let_def on_request_error_def classify_def
      split: outcome.splits option.splits prod.splits)

lemma loop_Cons_stop:
  "fst (attempt up path url key s) \<noteq> Continue \<Longrightarrow>
   snd (loop up path url (key # keys) s) = snd (attempt up path url key s)"
  by (cases "attempt up path url key s"; cases "fst (attempt up path url key s)") auto

lemma request_body_idem:
  "request_body (snd (request_body rq)) = (fst (request_body rq), snd (request_body rq))"
  by (simp add: request_body_def split: option.splits)

lemma loop_sent_headers:
  "\<exists>new. sent (snd (loop up path url keys s)) = sent s @ new
     \<and> length new \<le> length keys
     \<and> (\<forall>i<length new. map_of (o_headers (new ! i)) =
            (map_of (headers s))(''x-goog-api-key'' \<mapsto> keys ! i))"
proof (induction keys arbitrary: s)
  case Nil
  then show ?case by simp
next
  case (Cons key keys)
  define s1 where "s1 = snd (attempt up path url key s)"
  from attempt_sent [of up path url key s] obtain c where
    c: "sent s1 = sent s @ [c]"
      "o_headers c = AList.update ''x-goog-api-key'' key (headers s)"
    unfolding s1_def by blast
  have h1: "headers s1 = AList.update ''x-goog-api-key'' key (headers s)"
    by (simp add: s1_def attempt_headers)
  show ?case
  proof (cases "fst (attempt up path url key s) = Continue")
    case True
    then have eq: "loop up path url (key # keys) s = loop up path url keys s1"
      unfolding s1_def by (rule loop_Cons_Continue)
    from Cons.IH [of s1] obtain new where
      n: "sent (snd (loop up path url keys s1)) = sent s1 @ new" "length new \<le> length keys"
        "\<forall>i<length new. map_of (o_headers (new ! i)) =
            (map_of (headers s1))(''x-goog-api-key'' \<mapsto> keys ! i)"
      by blast
    have "\<forall>i<length (c # new). map_of (o_headers ((c # new) ! i)) =
            (map_of (headers s))(''x-goog-api-key'' \<mapsto> (key # keys) ! i)"
    proof (intro allI impI)
      fix i assume "i < length (c # new)"
      then show "map_of (o_headers ((c # new) ! i)) =
            (map_of (headers s))(''x-goog-api-key'' \<mapsto> (key # keys) ! i)"
        using n(3) c(2) h1 by (cases i) (simp_all add: update_conv')
    qed
    with n(1,2) c(1) eq show ?thesis
      by (intro exI [of _ "c # new"]) simp
  next
    case False
    then have "snd (loop up path url (key # keys) s) = s1"
      unfolding s1_def by (rule loop_Cons_stop)
    with c show ?thesis
      by (intro exI [of _ "[c]"]) (simp add: update_conv')
  qed
qed

lemma loop_sent_content:
  assumes "\<not> is_streaming path"
  shows "(\<forall>c\<in>set (drop (length (sent s)) (sent (snd (loop up path url keys s)))).
            o_content c = Content (fst (request_body (req s))))
       \<and> req (snd (loop up path url keys s)) =
            (if keys = [] then req s else snd (request_body (req s)))"
proof (induction keys arbitrary: s)
  case Nil
  then show ?case by simp
next
  case (Cons key keys)
  define s1 where "s1 = snd (attempt up path url key s)"
  from attempt_sent [of up path url key s] assms obtain c where
    c: "sent s1 = sent s @ [c]" "o_content c = Content (fst (request_body (req s)))"
    unfolding s1_def by auto
  have r1: "req s1 = snd (request_body (req s))"
    using assms by (simp add: s1_def attempt_req)
  have b1: "fst (request_body (req s1)) = fst (request_body (req s))"
    and b2: "snd (request_body (req s1)) = req s1"
    by (simp_all add: r1 request_body_idem)
  show ?case
  proof (cases "fst (attempt up path url key s) = Continue")
    case True
    then have eq: "loop up path url (key # keys) s = loop up path url keys s1"
      unfolding s1_def by (rule loop_Cons_Continue)
    from loop_sent_headers [of up path url keys s1] obtain new where
      n: "sent (snd (loop up path url keys s1)) = sent s1 @ new" by blast
    from Cons.IH [of s1] n c b1 b2 r1 eq show ?thesis
      by auto
  next
    case False
    then have "snd (loop up path url (key # keys) s) = s1"
      unfolding s1_def by (rule loop_Cons_stop)
    with c r1 show ?thesis by simp
  qed
qed

lemma proxy_run:
  assumes "api_keys env rq \<noteq> []"
  shows "result (proxy_to_gemini rnd env up rq path) =
           fst (loop up path (target_url rq path) (shuffle rnd (api_keys env rq)) (init_state rq))"
    and "calls (proxy_to_gemini rnd env up rq path) =
           sent (snd (loop up path (target_url rq path) (shuffle rnd (api_keys env rq)) (init_state rq)))"
    and "request_after (proxy_to_gemini rnd env up rq path) =
           req (snd (loop up path (target_url rq path) (shuffle rnd (api_keys env rq)) (init_state rq)))"
  using assms by (simp_all add: proxy_to_gemini_def target_url_def Let_def split: prod.splits)

lemma api_keys_two: "api_keys Map.empty rq_two_keys = [''k1'', ''k2'']"
  by (simp add: api_keys_def rq_two_keys_def headers_get_def lower_def lower_char_def
      parse_keys_def strip_def is_space_def
      strip_utf8_def space1_def space2_def space3_def)

lemma not_streaming_generate: "\<not> is_streaming plain_path"
  by (simp add: is_streaming_def plain_path_def lower_def lower_char_def)

lemma streaming_stream_path: "is_streaming stream_path"
  by (simp add: is_streaming_def stream_path_def lower_def lower_char_def)

lemma api_keys_env_one: "api_keys env_one_key rq_no_key_header = [''ek1'']"
  by (simp add: api_keys_def rq_no_key_header_def env_one_key_def headers_get_def env_get_def
      lower_def lower_char_def parse_keys_def strip_def is_space_def
      strip_utf8_def space1_def space2_def space3_def)


lemma loop_reach:
  assumes "k < length keys"
    and "\<forall>i<k. retried path (up (length (sent s) + i))"
  shows "\<exists>s'. loop up path url keys s = loop up path url (keys ! k # drop (Suc k) keys) s'
      \<and> length (sent s') = length (sent s) + k
      \<and> (is_streaming path \<longrightarrow> response s' = response s)"
proof -
  have "\<forall>i<length (take k keys). retried path (up (length (sent s) + i))"
    using assms by simp
  from loop_retried_prefix [OF this, of url "drop k keys"] assms(1) show ?thesis
    by (auto simp: Cons_nth_drop_Suc)
qed

lemma loop_Cons_Return:
  "fst (attempt up path url key s) = Return r \<Longrightarrow>
   fst (loop up path url (key # keys) s) = Inr r"
  by (cases "attempt up path url key s") simp

lemma loop_Cons_Raise:
  "fst (attempt up path url key s) = Raise e \<Longrightarrow>
   fst (loop up path url (key # keys) s) = Inl e"
  by (cases "attempt up path url key s") simp

lemma proxy_stops_at:
  assumes "k < length (api_keys env rq)"
    and "\<forall>i<k. retried path (up i)"
    and "\<And>s key. length (sent s) = k \<Longrightarrow> (is_streaming path \<longrightarrow> response s = None) \<Longrightarrow>
           fst (attempt up path (target_url rq path) key s) = st"
    and "st \<noteq> Continue"
  shows "result (proxy_to_gemini rnd env up rq path) =
           (case st of Return r \<Rightarrow> Inr r | Raise e \<Rightarrow> Inl e | Continue \<Rightarrow> Inl undefined)
       \<and> length (calls (proxy_to_gemini rnd env up rq path)) = Suc k"
proof -
  define keys where "keys = shuffle rnd (api_keys env rq)"
  define url where "url = target_url rq path"
  define s0 where "s0 = init_state rq"
  have ne: "api_keys env rq \<noteq> []" using assms(1) by auto
  have k: "k < length keys" using assms(1) by (simp add: keys_def shuffle_length)
  have s0: "sent s0 = []" "response s0 = None" by (simp_all add: s0_def init_state_def)
  have "\<forall>i<k. retried path (up (length (sent s0) + i))"
    using assms(2) by (simp add: s0)
  from loop_reach [OF k this, of url] obtain s' where
    a: "loop up path url keys s0 = loop up path url (keys ! k # drop (Suc k) keys) s'" and
    b: "length (sent s') = k" and
    c: "is_streaming path \<longrightarrow> response s' = None"
    by (auto simp: s0)
  have st: "fst (attempt up path url (keys ! k) s') = st"
    using assms(3) [OF b c] by (simp add: url_def)
  have "snd (loop up path url (keys ! k # drop (Suc k) keys) s') =
          snd (attempt up path url (keys ! k) s')"
    using st assms(4) loop_Cons_stop [of up path url "keys ! k" s'] by simp
  then have len: "length (sent (snd (loop up path url keys s0))) = Suc k"
    using a b by (simp add: attempt_sent_length)
  have "fst (loop up path url keys s0) =
          (case st of Return r \<Rightarrow> Inr r | Raise e \<Rightarrow> Inl e | Continue \<Rightarrow> Inl undefined)"
  proof (cases st)
    case Continue
    with assms(4) show ?thesis by simp
  next
    case (Return r)
    with st a loop_Cons_Return [of up path url "keys ! k" s' r] show ?thesis by simp
  next
    case (Raise e)
    with st a loop_Cons_Raise [of up path url "keys ! k" s' e] show ?thesis by simp
  qed
  with len show ?thesis
    using proxy_run [OF ne, of rnd up path] by (simp add: keys_def url_def s0_def)
qed

lemma attempt_streaming_not_200:
  assumes "is_streaming path" "response s = None"
    and "up (length (sent s)) = Received r" "status_code r \<noteq> 200"
  shows "fst (attempt up path url key s) = Raise (UnboundLocalError ''response'')"
  using assms by (simp add: attempt_def Let_def classify_def)

lemma attempt_streaming_200:
  assumes "is_streaming path"
    and "up (length (sent s)) = Received r" "status_code r = 200"
  shows "fst (attempt up path url key s) =
           Return (StreamingResponse (r_content r) 200 (Some (dict_of (r_headers r)))
                     (map_of (r_headers r) ''content-type''))"
  using assms by (simp add: attempt_def Let_def classify_def)

lemma attempt_buffered_success:
  assumes "\<not> is_streaming path"
    and "up (length (sent s)) = Received r" "status_code r < 400"
  shows "fst (attempt up path url key s) =
           Return (Response (Some (r_content r)) (status_code r)
                     (Some (dict_of (filter
                        (\<lambda>(k, v). lower k \<notin> set [''content-encoding'', ''transfer-encoding''])
                        (r_headers r))))
                     (map_of (r_headers r) ''content-type''))"
  using assms by (simp add: attempt_def Let_def classify_def split: prod.splits)

lemma attempt_buffered_5xx:
  assumes "\<not> is_streaming path"
    and "up (length (sent s)) = Received r" "500 \<le> status_code r"
  shows "fst (attempt up path url key s) =
           Return (Response (Some (r_content r)) (status_code r)
                     (Some (dict_of (r_headers r))) None)"
  using assms by (simp add: attempt_def Let_def classify_def split: prod.splits)


lemma gzip_response_fields:
  "status_code (gzip_response st) = st"
  "r_content (gzip_response st) = ''{}''"
  "map_of (r_headers (gzip_response st)) ''content-type'' = Some ''application/json''"
  "dict_of (r_headers (gzip_response st)) =
     [(''content-type'', ''application/json''), (''content-encoding'', ''gzip'')]"
  "dict_of (filter (\<lambda>(k, v). lower k \<notin> set [''content-encoding'', ''transfer-encoding''])
     (r_headers (gzip_response st))) = [(''content-type'', ''application/json'')]"
  by (simp_all add: gzip_response_def dict_of_def lower_def lower_char_def)

lemma streaming_non_200_raises:
  assumes "is_streaming path" "k < length (api_keys env rq)" "\<forall>i<k. retried path (up i)"
    and "up k = Received r" "status_code r \<noteq> 200"
  shows "result (proxy_to_gemini rnd env up rq path) = Inl (UnboundLocalError ''response'')
       \<and> length (calls (proxy_to_gemini rnd env up rq path)) = Suc k"
proof -
  have st: "fst (attempt up path (target_url rq path) key s) =
              Raise (UnboundLocalError ''response'')"
    if "length (sent s) = k" "is_streaming path \<longrightarrow> response s = None" for s key
  proof (rule attempt_streaming_not_200)
    show "is_streaming path" by fact
    show "response s = None" using that(2) assms(1) by blast
    show "up (length (sent s)) = Received r" unfolding that(1) by fact
    show "status_code r \<noteq> 200" by fact
  qed
  have ne: "Raise (UnboundLocalError ''response'') \<noteq> Continue" by simp
  from proxy_stops_at [OF assms(2,3) st ne, of rnd] show ?thesis
    by (simp only: step.case)
qed

lemma buffered_5xx_returned:
  assumes "\<not> is_streaming path" "k < length (api_keys env rq)" "\<forall>i<k. retried path (up i)"
    and "up k = Received r" "500 \<le> status_code r"
  shows "result (proxy_to_gemini rnd env up rq path) =
           Inr (Response (Some (r_content r)) (status_code r) (Some (dict_of (r_headers r))) None)
       \<and> length (calls (proxy_to_gemini rnd env up rq path)) = Suc k"
proof -
  have st: "fst (attempt up path (target_url rq path) key s) =
              Return (Response (Some (r_content r)) (status_code r)
                        (Some (dict_of (r_headers r))) None)"
    if "length (sent s) = k" for s key
  proof (rule attempt_buffered_5xx)
    show "\<not> is_streaming path" by fact
    show "up (length (sent s)) = Received r" unfolding that by fact
    show "500 \<le> status_code r" by fact
  qed
  have ne: "Return (Response (Some (r_content r)) (status_code r)
                        (Some (dict_of (r_headers r))) None) \<noteq> Continue" by simp
  from proxy_stops_at [OF assms(2,3) st ne, of rnd] show ?thesis
    by (simp only: step.case)
qed


lemma loop_exhausted:
  assumes "keys \<noteq> []"
    and "\<forall>i<length keys. retried path (up (length (sent s) + i))"
  shows "fst (loop up path url keys s) =
           Inr (Response (fst (recorded (up (length (sent s) + length keys - 1))))
                  (snd (recorded (up (length (sent s) + length keys - 1))))
                  None (Some ''application/json''))"
    and "length (sent (snd (loop up path url keys s))) = length (sent s) + length keys"
proof -
  from loop_retried_prefix [OF assms(2), of url "[]"] assms(1) obtain s' where
    a: "loop up path url keys s = loop up path url [] s'" and
    b: "length (sent s') = length (sent s) + length keys" and
    c: "(last_error s', last_status s') = recorded (up (length (sent s) + length keys - 1))"
    by auto
  from c have "last_error s' = fst (recorded (up (length (sent s) + length keys - 1)))"
    and "last_status s' = snd (recorded (up (length (sent s) + length keys - 1)))"
    by (metis fst_conv, metis snd_conv)
  with a show "fst (loop up path url keys s) =
           Inr (Response (fst (recorded (up (length (sent s) + length keys - 1))))
                  (snd (recorded (up (length (sent s) + length keys - 1))))
                  None (Some ''application/json''))"
    by simp
  from a b show "length (sent (snd (loop up path url keys s))) = length (sent s) + length keys"
    by simp
qed

lemma loop_single_state:
  "snd (loop up path url [key] s) = snd (attempt up path url key s)"
  by (cases "attempt up path url key s"; cases "fst (attempt up path url key s)") auto

lemma loop_sent_grows:
  "keys \<noteq> [] \<Longrightarrow> length (sent s) < length (sent (snd (loop up path url keys s)))"
proof (cases keys)
  case Nil
  then show "keys \<noteq> [] \<Longrightarrow> ?thesis" by simp
next
  case (Cons key rest)
  define s1 where "s1 = snd (attempt up path url key s)"
  have l1: "length (sent s1) = Suc (length (sent s))"
    by (simp add: s1_def attempt_sent_length)
  show ?thesis
  proof (cases "fst (attempt up path url key s) = Continue")
    case True
    then have "loop up path url (key # rest) s = loop up path url rest s1"
      unfolding s1_def by (rule loop_Cons_Continue)
    moreover from loop_sent_headers [of up path url rest s1]
    have "length (sent s1) \<le> length (sent (snd (loop up path url rest s1)))" by auto
    ultimately show ?thesis using l1 Cons by simp
  next
    case False
    then have "snd (loop up path url (key # rest) s) = s1"
      unfolding s1_def by (rule loop_Cons_stop)
    then show ?thesis using l1 Cons by simp
  qed
qed

lemma rq_two_keys_fields:
  "body_cache rq_two_keys = None" "source_reads rq_two_keys = 0" "source rq_two_keys = ''{}''"
  by (simp_all add: rq_two_keys_def)


lemma rq_header_keys:
  "parse_keys strip (headers_get (rq_headers rq_two_keys) ''x-goog-api-key'' '''') =
     [''k1'', ''k2'']"
  "parse_keys strip (headers_get (rq_headers rq_no_key_header) ''x-goog-api-key'' '''') = []"
  "parse_keys strip_utf8 (env_get env_blank ''GOOGLE_API_KEYS'' '''') = []"
  by (simp_all add: rq_two_keys_def rq_no_key_header_def headers_get_def env_get_def env_blank_def
      lower_def lower_char_def parse_keys_def strip_def is_space_def
      strip_utf8_def space1_def space2_def space3_def)

lemma attempt_request_error:
  assumes "up (length (sent s)) = RequestError e"
  shows "fst (attempt up path url key s) = Continue
       \<and> last_error (snd (attempt up path url key s)) = Some (fetch_error_body e)
       \<and> last_status (snd (attempt up path url key s)) = 502"
proof -
  have "retried path (up (length (sent s)))" using assms by (simp add: retried_def)
  with attempt_retried [of path up s url key] assms show ?thesis
    by (simp add: recorded_def)
qed


lemma map_of_fold_update:
  "map_of (fold (\<lambda>(k, v) d. AList.update k v d) items d) = map_of (rev items @ d)"
proof (induction items arbitrary: d)
  case Nil
  then show ?case by simp
next
  case (Cons p items)
  obtain k v where p: "p = (k, v)" by (cases p)
  show ?case
    by (simp add: p Cons.IH update_conv' map_add_def fun_eq_iff split: option.splits)
qed

lemma map_of_dict_of: "map_of (dict_of items) = map_of (rev items)"
  by (simp add: dict_of_def map_of_fold_update)

lemma lower_User_Agent: "lower ''User-Agent'' = ''user-agent''"
  by (simp add: lower_def lower_char_def)

lemma prepare_headers_excluded:
  assumes "lower k \<in> set excluded_headers"
  shows "map_of (prepare_headers items) k = None"
proof -
  have "lower ''User-Agent'' \<notin> set excluded_headers"
    by (simp add: lower_User_Agent excluded_headers_def)
  with assms have ne: "k \<noteq> ''User-Agent''" by auto
  have "k \<notin> fst ` set (rev (filter (\<lambda>(k, v). lower k \<notin> set excluded_headers) items))"
    using assms by auto
  then have "map_of (dict_of (filter (\<lambda>(k, v). lower k \<notin> set excluded_headers) items)) k = None"
    by (simp add: map_of_dict_of map_of_eq_None_iff del: set_rev set_filter)
  with ne show ?thesis
    by (simp add: prepare_headers_def update_conv')
qed

lemma prepare_headers_user_agent:
  "map_of (prepare_headers items) ''User-Agent'' = Some user_agent"
  by (simp add: prepare_headers_def update_conv')

lemma outbound_headers_sanitized:
  assumes "c \<in> set (calls (proxy_to_gemini rnd env up rq path))"
  shows "map_of (o_headers c) ''User-Agent'' = Some user_agent"
    and "lower k \<in> set excluded_headers \<Longrightarrow> k \<noteq> ''x-goog-api-key'' \<Longrightarrow>
           map_of (o_headers c) k = None"
    and "\<exists>key\<in>set (shuffle rnd (api_keys env rq)).
           map_of (o_headers c) ''x-goog-api-key'' = Some key"
proof -
  have ne: "api_keys env rq \<noteq> []"
    using assms by (auto simp: proxy_to_gemini_def Let_def)
  define keys where "keys = shuffle rnd (api_keys env rq)"
  define s0 where "s0 = init_state rq"
  have s0: "sent s0 = []" "headers s0 = prepare_headers (rq_headers rq)"
    by (simp_all add: s0_def init_state_def)
  from loop_sent_headers [of up path "target_url rq path" keys s0] obtain new where
    n: "sent (snd (loop up path (target_url rq path) keys s0)) = new"
      "length new \<le> length keys"
      "\<forall>i<length new. map_of (o_headers (new ! i)) =
            (map_of (headers s0))(''x-goog-api-key'' \<mapsto> keys ! i)"
    by (auto simp: s0)
  have "calls (proxy_to_gemini rnd env up rq path) = new"
    using proxy_run(2) [OF ne, of rnd up path] n(1) by (simp add: keys_def s0_def)
  with assms obtain i where i: "i < length new" "c = new ! i"
    by (auto simp: in_set_conv_nth)
  with n(3) have m: "map_of (o_headers c) =
      (map_of (prepare_headers (rq_headers rq)))(''x-goog-api-key'' \<mapsto> keys ! i)"
    by (simp add: s0)
  show "map_of (o_headers c) ''User-Agent'' = Some user_agent"
    by (simp add: m prepare_headers_user_agent)
  show "map_of (o_headers c) k = None"
    if "lower k \<in> set excluded_headers" "k \<noteq> ''x-goog-api-key''"
    using that by (simp add: m prepare_headers_excluded)
  have "keys ! i \<in> set keys" using i(1) n(2) by simp
  then show "\<exists>key\<in>set (shuffle rnd (api_keys env rq)).
           map_of (o_headers c) ''x-goog-api-key'' = Some key"
    by (auto simp: m keys_def)
qed

lemma prepare_headers_no_key_header:
  "prepare_headers (rq_headers rq_no_key_header) =
     [(''user-agent'', ''curl/8.0''), (''User-Agent'', user_agent)]"
  by (simp add: prepare_headers_def rq_no_key_header_def dict_of_def excluded_headers_def
      lower_def lower_char_def)

lemma attempt_buffered_no_raise:
  "\<not> is_streaming path \<Longrightarrow> fst (attempt up path url key s) \<noteq> Raise e"
  by (auto simp: attempt_def Let_def on_request_error_def classify_def
      split: outcome.splits option.splits prod.splits)

lemma loop_buffered_replies:
  assumes "\<not> is_streaming path"
  shows "\<exists>r. fst (loop up path url keys s) = Inr r"
proof (induction keys arbitrary: s)
  case Nil
  then show ?case by simp
next
  case (Cons key keys)
  show ?case
  proof (cases "fst (attempt up path url key s)")
    case Continue
    then have "loop up path url (key # keys) s =
        loop up path url keys (snd (attempt up path url key s))"
      by (rule loop_Cons_Continue)
    with Cons.IH show ?thesis by simp
  next
    case (Return r)
    then have "fst (loop up path url (key # keys) s) = Inr r" by (rule loop_Cons_Return)
    then show ?thesis by blast
  next
    case (Raise e)
    with attempt_buffered_no_raise [OF assms, of up url key s e] show ?thesis by simp
  qed
qed

lemma buffered_always_replies:
  assumes "\<not> is_streaming path"
  shows "\<exists>r. result (proxy_to_gemini rnd env up rq path) = Inr r"
proof (cases "api_keys env rq = []")
  case True
  then show ?thesis by (simp add: proxy_to_gemini_def)
next
  case False
  from proxy_run(1) [OF False, of rnd up path] loop_buffered_replies [OF assms]
  show ?thesis by simp
qed

lemma json_missing_keys_body:
  "is_json_error_body missing_keys_body" "length missing_keys_body = 113"
  by (simp_all add: is_json_error_body_def missing_keys_body_def json_string_char_def)

lemma strip_utf8_examples:
  "strip_utf8 ([CHR 0xE3, CHR 0x80, CHR 0x80] @ ''k'' @ [CHR 0xE2, CHR 0x80, CHR 0xA8, CHR 0x0A]) = ''k''"
  "strip_utf8 [CHR 0xE3, CHR 0x80, CHR 0x80] = []"
  "strip_utf8 ([CHR 0xC3, CHR 0xA9] @ '' '') = [CHR 0xC3, CHR 0xA9]"
  by (simp_all add: strip_utf8_def space1_def space2_def space3_def)

lemma set_shuffle_loop:
  "i < length x \<Longrightarrow> set (shuffle_loop rnd i x) = set x"
proof (induction i arbitrary: x)
  case 0
  then show ?case by simp
next
  case (Suc i)
  define j where "j = rnd (Suc i) mod (Suc i + 1)"
  have "j < Suc i + 1" unfolding j_def by (rule mod_less_divisor) simp
  with Suc.prems have j: "j < length x" by simp
  have "set (x[Suc i := x ! j, j := x ! Suc i]) = set x"
    using Suc.prems j by (simp add: set_swap)
  moreover have "i < length (x[Suc i := x ! j, j := x ! Suc i])" using Suc.prems by simp
  ultimately show ?case using Suc.IH [of "x[Suc i := x ! j, j := x ! Suc i]"]
    by (simp add: j_def Let_def)
qed

lemma set_shuffle: "set (shuffle rnd x) = set x"
proof (cases "x = []")
  case True
  then show ?thesis by (simp add: shuffle_def)
next
  case False
  then have "length x - 1 < length x" by simp
  then show ?thesis by (simp add: shuffle_def set_shuffle_loop)
qed

lemma proxy_calls_nonempty:
  assumes "api_keys env rq \<noteq> []"
  shows "calls (proxy_to_gemini rnd env up rq path) \<noteq> []"
proof -
  have "shuffle rnd (api_keys env rq) \<noteq> []" using assms by (simp add: shuffle_Nil_iff)
  from loop_sent_grows [OF this, of "init_state rq" up path "target_url rq path"]
  have "sent (snd (loop up path (target_url rq path) (shuffle rnd (api_keys env rq))
      (init_state rq))) \<noteq> []"
    by auto
  with proxy_run(2) [OF assms, of rnd up path] show ?thesis by simp
qed

section \<open>The claims\<close>

text \<open>
  \<^bold>\<open>C1\<close>. Claimed: on a streaming path, an attempt whose answer is not exactly 200 is
  classified like a buffered one, so a 4xx is recorded and the loop goes on to the next
  credential. The handler does not do this. The streaming branch binds the answer to the
  local \<open>r\<close>, and lines 95 to 104 read the local \<open>response\<close>, which a streaming request
  never assigns. With two credentials and an upstream that answers 404, the handler raises
  \<open>UnboundLocalError\<close> after one call; the second credential is never tried. Lemma
  \<open>streaming_non_200_raises\<close> is the general fact.
\<close>

theorem streaming_404_raises:
  "is_streaming stream_path
   \<and> up_status 404 0 = Received (gzip_response 404)
   \<and> result (proxy_to_gemini (\<lambda>i. 0) Map.empty (up_status 404) rq_two_keys stream_path) =
       Inl (UnboundLocalError ''response'')
   \<and> length (calls (proxy_to_gemini (\<lambda>i. 0) Map.empty (up_status 404) rq_two_keys stream_path))
       = Suc 0"
proof -
  have h2: "0 < length (api_keys Map.empty rq_two_keys)" by (simp add: api_keys_two)
  have h3: "\<forall>i<0. retried stream_path (up_status 404 i)" by simp
  have h4: "up_status 404 0 = Received (gzip_response 404)" by (simp add: up_status_def)
  have h5: "status_code (gzip_response 404) \<noteq> 200" by (simp add: gzip_response_fields)
  from streaming_non_200_raises [OF streaming_stream_path h2 h3 h4 h5, of "\<lambda>i. 0"]
    streaming_stream_path h4
  show ?thesis by blast
qed

text \<open>
  \<^bold>\<open>C2\<close>. Claimed: the handler always returns a response and no exception escapes it, also
  on a streaming path whose attempts receive answers other than 200. On a streaming path with
  one credential from the environment and an upstream that answers 429, the handler returns
  nothing: \<open>UnboundLocalError\<close> escapes. On a path that is not streaming, an upstream
  call that either returns or raises \<open>httpx.RequestError\<close> always leads to a response
  (lemma \<open>buffered_always_replies\<close>); other exceptions of the framework and the client are
  not modelled.
\<close>

theorem handler_raises_on_streaming_429:
  "result (proxy_to_gemini (\<lambda>i. 0) env_one_key (up_status 429) rq_no_key_header stream_path) =
       Inl (UnboundLocalError ''response'')"
proof -
  have h2: "0 < length (api_keys env_one_key rq_no_key_header)" by (simp add: api_keys_env_one)
  have h3: "\<forall>i<0. retried stream_path (up_status 429 i)" by simp
  have h4: "up_status 429 0 = Received (gzip_response 429)" by (simp add: up_status_def)
  have h5: "status_code (gzip_response 429) \<noteq> 200" by (simp add: gzip_response_fields)
  from streaming_non_200_raises [OF streaming_stream_path h2 h3 h4 h5, of "\<lambda>i. 0"]
  show ?thesis by blast
qed

text \<open>
  \<^bold>\<open>C3\<close>. Claimed: for every request, an attempt that receives a status of 500 or more ends
  the loop and that response is returned unchanged. On a streaming path this fails: the first
  call times out (a retried failure), the second receives 503, and the handler raises
  \<open>UnboundLocalError\<close> instead of returning the 503. No later credential is tried, as
  claimed. On a path that is not streaming the claim holds (lemma
  \<open>buffered_5xx_returned\<close>).
\<close>

theorem streaming_5xx_not_returned:
  "up_error_then 503 0 = RequestError ''timed out''
   \<and> up_error_then 503 1 = Received (gzip_response 503)
   \<and> result (proxy_to_gemini (\<lambda>i. 0) Map.empty (up_error_then 503) rq_two_keys stream_path) =
       Inl (UnboundLocalError ''response'')
   \<and> length (calls (proxy_to_gemini (\<lambda>i. 0) Map.empty (up_error_then 503) rq_two_keys
         stream_path)) = Suc 1"
proof -
  have h0: "up_error_then 503 0 = RequestError ''timed out''" by (simp add: up_error_then_def)
  have h2: "1 < length (api_keys Map.empty rq_two_keys)" by (simp add: api_keys_two)
  have h3: "\<forall>i<1. retried stream_path (up_error_then 503 i)"
    by (simp add: retried_def up_error_then_def)
  have h4: "up_error_then 503 1 = Received (gzip_response 503)"
    by (simp add: up_error_then_def)
  have h5: "status_code (gzip_response 503) \<noteq> 200" by (simp add: gzip_response_fields)
  from streaming_non_200_raises [OF streaming_stream_path h2 h3 h4 h5, of "\<lambda>i. 0"] h0 h4
  show ?thesis by blast
qed

text \<open>
  \<^bold>\<open>C4\<close>. When the pool is not empty and every attempt ends in a retried failure (a
  transport error, or a 4xx on a path that is not streaming), the handler makes one call per
  credential and returns the body and status recorded for the last call, with media type
  \<open>application/json\<close>. That call carried the last credential of the shuffled list.
\<close>

theorem exhaustion_returns_last_failure:
  assumes "api_keys env rq \<noteq> []"
    and "\<forall>i<length (api_keys env rq). retried path (up i)"
  shows "result (proxy_to_gemini rnd env up rq path) =
           Inr (Response (fst (recorded (up (length (api_keys env rq) - 1))))
                  (snd (recorded (up (length (api_keys env rq) - 1))))
                  None (Some ''application/json''))
       \<and> length (calls (proxy_to_gemini rnd env up rq path)) = length (api_keys env rq)
       \<and> map_of (o_headers (last (calls (proxy_to_gemini rnd env up rq path)))) ''x-goog-api-key''
           = Some (last (shuffle rnd (api_keys env rq)))"
proof -
  define keys where "keys = shuffle rnd (api_keys env rq)"
  define url where "url = target_url rq path"
  define s0 where "s0 = init_state rq"
  have len: "length keys = length (api_keys env rq)"
    by (simp add: keys_def shuffle_length)
  have ne: "keys \<noteq> []"
    using assms(1) by (simp add: keys_def shuffle_Nil_iff)
  have s0: "sent s0 = []" by (simp add: s0_def init_state_def)
  have all: "\<forall>i<length keys. retried path (up (length (sent s0) + i))"
    using assms(2) by (simp add: len s0)
  note ex = loop_exhausted [OF ne all, of url]
  have ex1: "fst (loop up path url keys s0) =
      Inr (Response (fst (recorded (up (length (api_keys env rq) - 1))))
             (snd (recorded (up (length (api_keys env rq) - 1))))
             None (Some ''application/json''))"
    using ex(1) by (simp add: s0 len)
  from loop_sent_headers [of up path url keys s0] obtain new where
    n: "sent (snd (loop up path url keys s0)) = new"
      "\<forall>i<length new. map_of (o_headers (new ! i)) =
            (map_of (headers s0))(''x-goog-api-key'' \<mapsto> keys ! i)"
    by (auto simp: s0)
  have ln: "length new = length keys" using ex(2) n(1) by (simp add: s0)
  have nne: "new \<noteq> []" using ln ne by auto
  have "length new - 1 < length new" using nne by simp
  with n(2) have "map_of (o_headers (new ! (length new - 1))) ''x-goog-api-key'' =
      Some (keys ! (length new - 1))"
    by simp
  then have "map_of (o_headers (last new)) ''x-goog-api-key'' = Some (last keys)"
    using nne ne ln by (simp add: last_conv_nth)
  with ex1 ln n(1) show ?thesis
    using proxy_run [OF assms(1), of rnd up path]
    by (simp add: keys_def url_def s0_def len [unfolded keys_def])
qed

theorem exhaustion_returns_last_failure_witness:
  "api_keys Map.empty rq_two_keys = [''k1'', ''k2'']
   \<and> retried plain_path (up_4xx 0) \<and> retried plain_path (up_4xx 1)
   \<and> recorded (up_4xx 0) = (Some [], 401)
   \<and> result (proxy_to_gemini (\<lambda>i. 0) Map.empty up_4xx rq_two_keys plain_path) =
       Inr (Response (Some ''x'') 402 None (Some ''application/json''))
   \<and> length (calls (proxy_to_gemini (\<lambda>i. 0) Map.empty up_4xx rq_two_keys plain_path)) = 2"
proof -
  have r: "retried plain_path (up_4xx n)" if "n < 2" for n
    using that by (simp add: retried_def up_4xx_def not_streaming_generate)
  have h1: "api_keys Map.empty rq_two_keys \<noteq> []" by (simp add: api_keys_two)
  have h2: "\<forall>i<length (api_keys Map.empty rq_two_keys). retried plain_path (up_4xx i)"
    by (simp add: api_keys_two r)
  have r0: "recorded (up_4xx 0) = (Some [], 401)"
    by (simp add: recorded_def up_4xx_def)
  have r1: "recorded (up_4xx (Suc 0)) = (Some ''x'', 402)"
    by (simp add: recorded_def up_4xx_def)
  from exhaustion_returns_last_failure [OF h1 h2, of "\<lambda>i. 0"]
  have "result (proxy_to_gemini (\<lambda>i. 0) Map.empty up_4xx rq_two_keys plain_path) =
       Inr (Response (Some ''x'') 402 None (Some ''application/json''))
   \<and> length (calls (proxy_to_gemini (\<lambda>i. 0) Map.empty up_4xx rq_two_keys plain_path)) = 2"
    by (simp add: api_keys_two r1)
  with r [of 0] r [of 1] r0 api_keys_two show ?thesis by simp
qed

text \<open>
  \<^bold>\<open>C5\<close>. Claimed: both buffered relays, the success return and the immediate 5xx return,
  drop \<open>content-encoding\<close> and \<open>transfer-encoding\<close>. The success return does (see C10);
  the 5xx return passes \<open>dict(response.headers)\<close> unfiltered: an upstream 500 carrying
  \<open>content-encoding: gzip\<close> reaches the caller with that header.
\<close>

theorem buffered_5xx_keeps_encoding_headers:
  "result (proxy_to_gemini (\<lambda>i. 0) Map.empty (up_status 500) rq_two_keys plain_path) =
     Inr (Response (Some ''{}'') 500
            (Some [(''content-type'', ''application/json''), (''content-encoding'', ''gzip'')])
            None)"
proof -
  have k: "0 < length (api_keys Map.empty rq_two_keys)" by (simp add: api_keys_two)
  have r: "\<forall>i<0. retried plain_path (up_status 500 i)" by simp
  have u: "up_status 500 0 = Received (gzip_response 500)" by (simp add: up_status_def)
  have a: "500 \<le> status_code (gzip_response 500)" by (simp add: gzip_response_fields)
  from buffered_5xx_returned [OF not_streaming_generate k r u a, of "\<lambda>i. 0"]
  have "result (proxy_to_gemini (\<lambda>i. 0) Map.empty (up_status 500) rq_two_keys plain_path) =
     Inr (Response (Some ''{}'') 500
            (Some [(''content-type'', ''application/json''), (''content-encoding'', ''gzip'')])
            None)
     \<and> length (calls (proxy_to_gemini (\<lambda>i. 0) Map.empty (up_status 500) rq_two_keys plain_path))
        = Suc 0"
    by (simp only: gzip_response_fields)
  then show ?thesis by blast
qed

text \<open>
  \<^bold>\<open>C6\<close>. On a path that is not streaming, with a non-empty pool and a request whose body has
  not been read yet, the handler reads the body from its source exactly once, and every call
  it issues sends those same bytes. The handler calls \<open>request.body()\<close> in every iteration;
  the single read is the framework's caching, modelled by \<open>request_body\<close>.
\<close>

theorem body_read_once:
  assumes "\<not> is_streaming path" "api_keys env rq \<noteq> []" "body_cache rq = None"
  shows "source_reads (request_after (proxy_to_gemini rnd env up rq path)) = Suc (source_reads rq)
       \<and> body_cache (request_after (proxy_to_gemini rnd env up rq path)) = Some (source rq)
       \<and> calls (proxy_to_gemini rnd env up rq path) \<noteq> []
       \<and> (\<forall>c\<in>set (calls (proxy_to_gemini rnd env up rq path)). o_content c = Content (source rq))"
proof -
  define keys where "keys = shuffle rnd (api_keys env rq)"
  define url where "url = target_url rq path"
  define s0 where "s0 = init_state rq"
  define s' where "s' = snd (loop up path url keys s0)"
  have ne: "keys \<noteq> []"
    using assms(2) by (simp add: keys_def shuffle_Nil_iff)
  have s0: "sent s0 = []" "req s0 = rq" by (simp_all add: s0_def init_state_def)
  have rb: "request_body rq =
      (source rq, rq\<lparr>body_cache := Some (source rq), source_reads := Suc (source_reads rq)\<rparr>)"
    using assms(3) by (simp add: request_body_def)
  from loop_sent_content [OF assms(1), of s0 up url keys] ne
  have c: "\<forall>c\<in>set (sent s'). o_content c = Content (source rq)"
    and r: "req s' = rq\<lparr>body_cache := Some (source rq), source_reads := Suc (source_reads rq)\<rparr>"
    by (simp_all add: s0 rb s'_def)
  from loop_sent_grows [OF ne, of s0 up path url] have n: "sent s' \<noteq> []"
    by (auto simp: s0 s'_def)
  have "calls (proxy_to_gemini rnd env up rq path) = sent s'"
    and "request_after (proxy_to_gemini rnd env up rq path) = req s'"
    using proxy_run(2,3) [OF assms(2), of rnd up path]
    by (simp_all add: keys_def url_def s0_def s'_def)
  with c r n show ?thesis by simp
qed

theorem body_read_once_witness:
  "\<not> is_streaming plain_path \<and> api_keys Map.empty rq_two_keys \<noteq> []
   \<and> body_cache rq_two_keys = None \<and> source_reads rq_two_keys = 0
   \<and> source_reads (request_after (proxy_to_gemini (\<lambda>i. 0) Map.empty up_4xx rq_two_keys
        plain_path)) = 1
   \<and> o_content (hd (calls (proxy_to_gemini (\<lambda>i. 0) Map.empty up_4xx rq_two_keys plain_path)))
        = Content ''{}''
   \<and> o_content (last (calls (proxy_to_gemini (\<lambda>i. 0) Map.empty up_4xx rq_two_keys plain_path)))
        = Content ''{}''"
proof -
  have h2: "api_keys Map.empty rq_two_keys \<noteq> []" by (simp add: api_keys_two)
  note t = body_read_once [OF not_streaming_generate h2 rq_two_keys_fields(1),
      of "\<lambda>i. 0" up_4xx]
  from t have ne: "calls (proxy_to_gemini (\<lambda>i. 0) Map.empty up_4xx rq_two_keys plain_path) \<noteq> []"
    by blast
  from t ne hd_in_set [OF ne] last_in_set [OF ne]
  have "o_content (hd (calls (proxy_to_gemini (\<lambda>i. 0) Map.empty up_4xx rq_two_keys plain_path)))
        = Content ''{}''"
    and "o_content (last (calls (proxy_to_gemini (\<lambda>i. 0) Map.empty up_4xx rq_two_keys
        plain_path))) = Content ''{}''"
    by (simp_all add: rq_two_keys_fields)
  with t not_streaming_generate h2 show ?thesis
    by (simp add: rq_two_keys_fields)
qed

text \<open>
  \<^bold>\<open>C7\<close>. Claimed: no excluded header of the inbound request is sent, and the outbound
  User-Agent is the fixed literal whatever the inbound one was. The first part holds (lemma
  \<open>outbound_headers_sanitized\<close>). The second does not: line 52 stores the literal under the
  key \<open>User-Agent\<close> of a case-sensitive dict, while the filter of line 49 keeps an inbound
  \<open>user-agent\<close> entry (the framework delivers header names in lower case). Both entries are
  handed to the HTTP client, so the caller's User-Agent value is still sent.
\<close>

theorem inbound_user_agent_survives:
  "map o_headers (calls (proxy_to_gemini (\<lambda>i. 0) env_one_key (up_status 200) rq_no_key_header
      plain_path)) =
     [[(''user-agent'', ''curl/8.0''), (''User-Agent'', user_agent), (''x-goog-api-key'', ''ek1'')]]"
proof -
  define s0 where "s0 = init_state rq_no_key_header"
  define url where "url = target_url rq_no_key_header plain_path"
  have ne: "api_keys env_one_key rq_no_key_header \<noteq> []" by (simp add: api_keys_env_one)
  have sh: "shuffle (\<lambda>i. 0) (api_keys env_one_key rq_no_key_header) = [''ek1'']"
    by (simp add: api_keys_env_one shuffle_def)
  have s0: "sent s0 = []" "headers s0 = prepare_headers (rq_headers rq_no_key_header)"
    by (simp_all add: s0_def init_state_def)
  from attempt_sent [of "up_status 200" plain_path url "''ek1''" s0] obtain c where
    c: "sent (snd (attempt (up_status 200) plain_path url ''ek1'' s0)) = [c]"
      "o_headers c = AList.update ''x-goog-api-key'' ''ek1'' (headers s0)"
    by (auto simp: s0)
  have "o_headers c =
     [(''user-agent'', ''curl/8.0''), (''User-Agent'', user_agent), (''x-goog-api-key'', ''ek1'')]"
    by (simp add: c(2) s0(2) prepare_headers_no_key_header)
  moreover have "calls (proxy_to_gemini (\<lambda>i. 0) env_one_key (up_status 200) rq_no_key_header
      plain_path) = [c]"
    using proxy_run(2) [OF ne, of "\<lambda>i. 0" "up_status 200" plain_path] c(1)
    by (simp only: sh loop_single_state s0_def url_def)
  ultimately show ?thesis by simp
qed

text \<open>
  \<^bold>\<open>C8\<close>. When the credential header and the environment variable both parse to the empty
  list, the handler returns status 400 with media type \<open>application/json\<close>, issues no call
  and leaves the request as it was. The body is the 113 bytes of line 32, a JSON object with
  the single member \<open>"error"\<close>. When the header parses to a non-empty list, that list is the
  pool whatever the environment holds, and every call carries one of its credentials.
\<close>

theorem missing_credentials_400:
  "(parse_keys strip (headers_get (rq_headers rq) ''x-goog-api-key'' '''') = []
      \<and> parse_keys strip_utf8 (env_get env ''GOOGLE_API_KEYS'' '''') = []
    \<longrightarrow> proxy_to_gemini rnd env up rq path =
          \<lparr>result = Inr (Response (Some missing_keys_body) 400 None (Some ''application/json'')),
           calls = [], request_after = rq\<rparr>)
   \<and> is_json_error_body missing_keys_body \<and> length missing_keys_body = 113
   \<and> (parse_keys strip (headers_get (rq_headers rq) ''x-goog-api-key'' '''') \<noteq> []
    \<longrightarrow> api_keys env rq = parse_keys strip (headers_get (rq_headers rq) ''x-goog-api-key'' '''')
        \<and> calls (proxy_to_gemini rnd env up rq path) \<noteq> []
        \<and> (\<forall>c\<in>set (calls (proxy_to_gemini rnd env up rq path)).
              \<exists>key\<in>set (parse_keys strip (headers_get (rq_headers rq) ''x-goog-api-key'' '''')).
                map_of (o_headers c) ''x-goog-api-key'' = Some key))"
proof (intro conjI impI)
  assume "parse_keys strip (headers_get (rq_headers rq) ''x-goog-api-key'' '''') = []
      \<and> parse_keys strip_utf8 (env_get env ''GOOGLE_API_KEYS'' '''') = []"
  then have "api_keys env rq = []" by (simp add: api_keys_def)
  then show "proxy_to_gemini rnd env up rq path =
          \<lparr>result = Inr (Response (Some missing_keys_body) 400 None (Some ''application/json'')),
           calls = [], request_after = rq\<rparr>"
    by (simp add: proxy_to_gemini_def)
next
  show "is_json_error_body missing_keys_body" by (rule json_missing_keys_body)
  show "length missing_keys_body = 113" by (rule json_missing_keys_body)
next
  assume h: "parse_keys strip (headers_get (rq_headers rq) ''x-goog-api-key'' '''') \<noteq> []"
  then show pool:
    "api_keys env rq = parse_keys strip (headers_get (rq_headers rq) ''x-goog-api-key'' '''')"
    by (simp add: api_keys_def)
  with h have ne: "api_keys env rq \<noteq> []" by simp
  then show "calls (proxy_to_gemini rnd env up rq path) \<noteq> []"
    by (rule proxy_calls_nonempty)
  show "\<forall>c\<in>set (calls (proxy_to_gemini rnd env up rq path)).
          \<exists>key\<in>set (parse_keys strip (headers_get (rq_headers rq) ''x-goog-api-key'' '''')).
            map_of (o_headers c) ''x-goog-api-key'' = Some key"
  proof
    fix c assume "c \<in> set (calls (proxy_to_gemini rnd env up rq path))"
    from outbound_headers_sanitized(3) [OF this]
    show "\<exists>key\<in>set (parse_keys strip (headers_get (rq_headers rq) ''x-goog-api-key'' '''')).
            map_of (o_headers c) ''x-goog-api-key'' = Some key"
      by (simp add: set_shuffle pool)
  qed
qed

theorem missing_credentials_400_witness:
  "parse_keys strip (headers_get (rq_headers rq_no_key_header) ''x-goog-api-key'' '''') = []
   \<and> parse_keys strip_utf8 (env_get env_blank ''GOOGLE_API_KEYS'' '''') = []
   \<and> proxy_to_gemini (\<lambda>i. 0) env_blank up_all_errors rq_no_key_header plain_path =
        \<lparr>result = Inr (Response (Some missing_keys_body) 400 None (Some ''application/json'')),
         calls = [], request_after = rq_no_key_header\<rparr>
   \<and> is_json_error_body missing_keys_body
   \<and> parse_keys strip (headers_get (rq_headers rq_two_keys) ''x-goog-api-key'' '''') \<noteq> []
   \<and> api_keys env_one_key rq_two_keys = [''k1'', ''k2'']
   \<and> (map_of (o_headers (hd (calls (proxy_to_gemini (\<lambda>i. 0) env_one_key up_all_errors
          rq_two_keys plain_path)))) ''x-goog-api-key'' = Some ''k1''
      \<or> map_of (o_headers (hd (calls (proxy_to_gemini (\<lambda>i. 0) env_one_key up_all_errors
          rq_two_keys plain_path)))) ''x-goog-api-key'' = Some ''k2'')"
proof -
  note a = missing_credentials_400 [of rq_no_key_header env_blank "\<lambda>i. 0" up_all_errors
      plain_path]
  note b = missing_credentials_400 [of rq_two_keys env_one_key "\<lambda>i. 0" up_all_errors
      plain_path]
  from b have ne: "calls (proxy_to_gemini (\<lambda>i. 0) env_one_key up_all_errors rq_two_keys
      plain_path) \<noteq> []"
    by (simp add: rq_header_keys)
  from b hd_in_set [OF ne]
  have "map_of (o_headers (hd (calls (proxy_to_gemini (\<lambda>i. 0) env_one_key up_all_errors
          rq_two_keys plain_path)))) ''x-goog-api-key'' = Some ''k1''
      \<or> map_of (o_headers (hd (calls (proxy_to_gemini (\<lambda>i. 0) env_one_key up_all_errors
          rq_two_keys plain_path)))) ''x-goog-api-key'' = Some ''k2''"
    by (auto simp: rq_header_keys)
  with a b show ?thesis by (simp add: rq_header_keys)
qed

text \<open>
  \<^bold>\<open>C9\<close>. An attempt that ends in a transport error records status 502 and, as the body,
  the JSON text of line 109, whose \<open>"details"\<close> member is the text of line 107 followed by the
  message of the error; the loop then continues. If every attempt is a retried failure and the
  last one is a transport error, the caller receives 502 with that body. The loop starts with
  nothing recorded and status 500: from that state, a run in which every attempt is a retried
  failure returns what the last attempt recorded, and 500 with no body only when there was no
  attempt at all. The handler enters the loop with a non-empty list only.
\<close>

theorem network_failure_records_502:
  \<open>fetch_error_body e =
      ''{"error": "Proxy fetch error", "details": "'' @
      [CHR 0xE6, CHR 0x97, CHR 0xA0, CHR 0xE6, CHR 0xB3, CHR 0x95, CHR 0xE8, CHR 0xBF, CHR 0x9E,
       CHR 0xE6, CHR 0x8E, CHR 0xA5, CHR 0xE5, CHR 0x88, CHR 0xB0, CHR 0xE7, CHR 0x9B, CHR 0xAE,
       CHR 0xE6, CHR 0xA0, CHR 0x87, CHR 0xE6, CHR 0x9C, CHR 0x8D, CHR 0xE5, CHR 0x8A, CHR 0xA1,
       CHR 0xE5, CHR 0x99, CHR 0xA8] @ '': '' @ e @ ''"}''
   \<and> (up (length (sent s)) = RequestError e \<longrightarrow>
      fst (attempt up path url key s) = Continue
      \<and> last_error (snd (attempt up path url key s)) = Some (fetch_error_body e)
      \<and> last_status (snd (attempt up path url key s)) = 502)
   \<and> (api_keys env rq \<noteq> [] \<and> (\<forall>i<length (api_keys env rq). retried path (up' i))
        \<and> up' (length (api_keys env rq) - 1) = RequestError e \<longrightarrow>
      result (proxy_to_gemini rnd env up' rq path) =
        Inr (Response (Some (fetch_error_body e)) 502 None (Some ''application/json'')))
   \<and> last_error (init_state rq) = None \<and> last_status (init_state rq) = 500
   \<and> ((\<forall>i<length keys. retried path (up' i)) \<longrightarrow>
      fst (loop up' path url keys (init_state rq)) =
        Inr (Response (if keys = [] then None else fst (recorded (up' (length keys - 1))))
               (if keys = [] then 500 else snd (recorded (up' (length keys - 1))))
               None (Some ''application/json'')))\<close>
proof (intro conjI impI)
  show \<open>fetch_error_body e =
      ''{"error": "Proxy fetch error", "details": "'' @
      [CHR 0xE6, CHR 0x97, CHR 0xA0, CHR 0xE6, CHR 0xB3, CHR 0x95, CHR 0xE8, CHR 0xBF, CHR 0x9E,
       CHR 0xE6, CHR 0x8E, CHR 0xA5, CHR 0xE5, CHR 0x88, CHR 0xB0, CHR 0xE7, CHR 0x9B, CHR 0xAE,
       CHR 0xE6, CHR 0xA0, CHR 0x87, CHR 0xE6, CHR 0x9C, CHR 0x8D, CHR 0xE5, CHR 0x8A, CHR 0xA1,
       CHR 0xE5, CHR 0x99, CHR 0xA8] @ '': '' @ e @ ''"}''\<close>
    by (simp add: fetch_error_body_def error_message_def)
next
  assume "up (length (sent s)) = RequestError e"
  with attempt_request_error [of up s e path url key]
  show "fst (attempt up path url key s) = Continue"
    and "last_error (snd (attempt up path url key s)) = Some (fetch_error_body e)"
    and "last_status (snd (attempt up path url key s)) = 502"
    by blast+
next
  assume a: "api_keys env rq \<noteq> [] \<and> (\<forall>i<length (api_keys env rq). retried path (up' i))
        \<and> up' (length (api_keys env rq) - 1) = RequestError e"
  then have "recorded (up' (length (api_keys env rq) - 1)) = (Some (fetch_error_body e), 502)"
    by (simp add: recorded_def)
  moreover have "sent (init_state rq) = []" by (simp add: init_state_def)
  moreover from a have "shuffle rnd (api_keys env rq) \<noteq> []"
    and "\<forall>i<length (shuffle rnd (api_keys env rq)).
           retried path (up' (length (sent (init_state rq)) + i))"
    by (simp_all add: shuffle_Nil_iff shuffle_length init_state_def)
  from loop_exhausted(1) [OF this, of "target_url rq path"]
  have "fst (loop up' path (target_url rq path) (shuffle rnd (api_keys env rq)) (init_state rq)) =
      Inr (Response (fst (recorded (up' (length (sent (init_state rq))
                       + length (shuffle rnd (api_keys env rq)) - 1))))
             (snd (recorded (up' (length (sent (init_state rq))
                       + length (shuffle rnd (api_keys env rq)) - 1))))
             None (Some ''application/json''))" .
  ultimately show "result (proxy_to_gemini rnd env up' rq path) =
        Inr (Response (Some (fetch_error_body e)) 502 None (Some ''application/json''))"
    using a proxy_run(1) [of env rq rnd up' path] by (simp add: shuffle_length)
next
  show "last_error (init_state rq) = None" by (simp add: init_state_def)
  show "last_status (init_state rq) = 500" by (simp add: init_state_def)
next
  assume all: "\<forall>i<length keys. retried path (up' i)"
  have s0: "sent (init_state rq) = []" by (simp add: init_state_def)
  show "fst (loop up' path url keys (init_state rq)) =
        Inr (Response (if keys = [] then None else fst (recorded (up' (length keys - 1))))
               (if keys = [] then 500 else snd (recorded (up' (length keys - 1))))
               None (Some ''application/json''))"
  proof (cases "keys = []")
    case True
    then show ?thesis by (simp add: init_state_def)
  next
    case False
    from all have "\<forall>i<length keys. retried path (up' (length (sent (init_state rq)) + i))"
      by (simp add: s0)
    from loop_exhausted(1) [OF False this, of url] False show ?thesis
      by (simp add: s0)
  qed
qed

theorem network_failure_records_502_witness:
  "up_all_errors (length (sent (init_state rq_two_keys))) = RequestError ''timed out''
   \<and> fst (attempt up_all_errors plain_path [] ''k1'' (init_state rq_two_keys)) = Continue
   \<and> last_error (snd (attempt up_all_errors plain_path [] ''k1'' (init_state rq_two_keys))) =
        Some (fetch_error_body ''timed out'')
   \<and> last_status (snd (attempt up_all_errors plain_path [] ''k1'' (init_state rq_two_keys))) = 502
   \<and> api_keys Map.empty rq_two_keys = [''k1'', ''k2'']
   \<and> retried plain_path (up_all_errors 0) \<and> retried plain_path (up_all_errors 1)
   \<and> up_all_errors (length (api_keys Map.empty rq_two_keys) - 1) = RequestError ''timed out''
   \<and> result (proxy_to_gemini (\<lambda>i. 0) Map.empty up_all_errors rq_two_keys plain_path) =
        Inr (Response (Some (fetch_error_body ''timed out'')) 502 None (Some ''application/json''))
   \<and> fst (loop up_all_errors plain_path [] [''k1'', ''k2''] (init_state rq_two_keys)) =
        Inr (Response (Some (fetch_error_body ''timed out'')) 502 None (Some ''application/json''))
   \<and> fst (loop up_all_errors plain_path [] [] (init_state rq_two_keys)) =
        Inr (Response None 500 None (Some ''application/json''))"
proof -
  have h1: "up_all_errors n = RequestError ''timed out''" for n by (simp add: up_all_errors_def)
  have h2: "api_keys Map.empty rq_two_keys \<noteq> []" by (simp add: api_keys_two)
  have r: "retried plain_path (up_all_errors n)" for n by (simp add: retried_def h1)
  then have h3: "\<forall>i<length (api_keys Map.empty rq_two_keys). retried plain_path (up_all_errors i)"
    by simp
  have rec: "recorded (up_all_errors n) = (Some (fetch_error_body ''timed out''), 502)" for n
    by (simp add: recorded_def h1)
  note t = network_failure_records_502 [where up = up_all_errors and s = "init_state rq_two_keys"
      and e = "''timed out''" and path = plain_path and url = "[]" and key = "''k1''"
      and env = Map.empty and rq = rq_two_keys and up' = up_all_errors and rnd = "\<lambda>i. 0"]
  from t [where keys = "[''k1'', ''k2'']"] r
  have two: "fst (loop up_all_errors plain_path [] [''k1'', ''k2''] (init_state rq_two_keys)) =
        Inr (Response (Some (fetch_error_body ''timed out'')) 502 None (Some ''application/json''))"
    by (simp add: rec)
  from t [where keys = "[]"]
  have none: "fst (loop up_all_errors plain_path [] [] (init_state rq_two_keys)) =
        Inr (Response None 500 None (Some ''application/json''))"
    by simp
  from t [where keys = "[]"] h1 h2 h3 r api_keys_two two none
  show ?thesis by blast
qed

text \<open>
  \<^bold>\<open>C10\<close>. On a path that is not streaming, the first answer with a status below 400 (also
  one below 200) ends the loop after that call: the handler returns its status and body, its
  headers without \<open>content-encoding\<close> and \<open>transfer-encoding\<close>, and its content type.
\<close>

theorem buffered_below_400_is_success:
  assumes "\<not> is_streaming path" "k < length (api_keys env rq)" "\<forall>i<k. retried path (up i)"
    and "up k = Received r" "status_code r < 400"
  shows "result (proxy_to_gemini rnd env up rq path) =
           Inr (Response (Some (r_content r)) (status_code r)
                  (Some (dict_of (filter
                     (\<lambda>(k, v). lower k \<notin> set [''content-encoding'', ''transfer-encoding''])
                     (r_headers r))))
                  (map_of (r_headers r) ''content-type''))
       \<and> length (calls (proxy_to_gemini rnd env up rq path)) = Suc k"
proof -
  have st: "fst (attempt up path (target_url rq path) key s) =
        Return (Response (Some (r_content r)) (status_code r)
                  (Some (dict_of (filter
                     (\<lambda>(k, v). lower k \<notin> set [''content-encoding'', ''transfer-encoding''])
                     (r_headers r))))
                  (map_of (r_headers r) ''content-type''))"
    if "length (sent s) = k" for s key
  proof (rule attempt_buffered_success)
    show "\<not> is_streaming path" by fact
    show "up (length (sent s)) = Received r" unfolding that by fact
    show "status_code r < 400" by fact
  qed
  have ne: "Return (Response (Some (r_content r)) (status_code r)
                  (Some (dict_of (filter
                     (\<lambda>(k, v). lower k \<notin> set [''content-encoding'', ''transfer-encoding''])
                     (r_headers r))))
                  (map_of (r_headers r) ''content-type'')) \<noteq> Continue" by simp
  from proxy_stops_at [OF assms(2,3) st ne, of rnd] show ?thesis
    by (simp only: step.case)
qed

theorem buffered_below_400_is_success_witness:
  "\<not> is_streaming plain_path
   \<and> 1 < length (api_keys Map.empty rq_two_keys)
   \<and> retried plain_path (up_error_then 101 0)
   \<and> up_error_then 101 1 = Received (gzip_response 101)
   \<and> status_code (gzip_response 101) < 400
   \<and> result (proxy_to_gemini (\<lambda>i. 0) Map.empty (up_error_then 101) rq_two_keys plain_path) =
       Inr (Response (Some ''{}'') 101 (Some [(''content-type'', ''application/json'')])
              (Some ''application/json''))
   \<and> length (calls (proxy_to_gemini (\<lambda>i. 0) Map.empty (up_error_then 101) rq_two_keys
         plain_path)) = Suc 1"
proof -
  have h2: "1 < length (api_keys Map.empty rq_two_keys)" by (simp add: api_keys_two)
  have r0: "retried plain_path (up_error_then 101 0)"
    by (simp add: retried_def up_error_then_def)
  then have h3: "\<forall>i<1. retried plain_path (up_error_then 101 i)" by simp
  have h4: "up_error_then 101 1 = Received (gzip_response 101)"
    by (simp add: up_error_then_def)
  have h5: "status_code (gzip_response 101) < 400" by (simp add: gzip_response_fields)
  from buffered_below_400_is_success [OF not_streaming_generate h2 h3 h4 h5, of "\<lambda>i. 0"]
  have "result (proxy_to_gemini (\<lambda>i. 0) Map.empty (up_error_then 101) rq_two_keys plain_path) =
       Inr (Response (Some ''{}'') 101 (Some [(''content-type'', ''application/json'')])
              (Some ''application/json''))
   \<and> length (calls (proxy_to_gemini (\<lambda>i. 0) Map.empty (up_error_then 101) rq_two_keys
         plain_path)) = Suc 1"
    by (simp only: gzip_response_fields)
  with not_streaming_generate h2 r0 h4 h5 show ?thesis by blast
qed

end
